theory Spec2Isabelle
  imports Complex_Main "HOL-Library.Word" "HOL-Library.Sublist"
begin

unbundle bit_operations_syntax

section \<open>Shared data: bytes, errors\<close>

type_synonym byte = "8 word"
type_synonym bytes = "byte list"

text \<open>The Python exceptions that the functions of \<^verbatim>\<open>fingerprinting.py\<close> can raise.\<close>

datatype error =
    ValueError
  | AttributeError
  | BinasciiError
  | OverflowError
  | ZeroDivisionError
  | UnicodeDecodeError

section \<open>binascii.crc32\<close>

text \<open>
  The standard CRC-32 (reflected polynomial \<^verbatim>\<open>0xEDB88320\<close>, initial value and final XOR
  \<^verbatim>\<open>0xFFFFFFFF\<close>) that \<^verbatim>\<open>binascii.crc32\<close> computes, one bit at a time.
\<close>

definition crc32_shift :: "32 word \<Rightarrow> 32 word" where
  "crc32_shift c = (if bit c 0 then drop_bit 1 c XOR 0xEDB88320 else drop_bit 1 c)"

definition crc32_update :: "32 word \<Rightarrow> byte \<Rightarrow> 32 word" where
  "crc32_update c b = (crc32_shift ^^ 8) (c XOR ucast b)"

definition crc32 :: "bytes \<Rightarrow> 32 word" where
  "crc32 data = fold (\<lambda>b c. crc32_update c b) data 0xFFFFFFFF XOR 0xFFFFFFFF"

section \<open>select\_windows\<close>

text \<open>A window is a sequence of n-gram byte strings.\<close>

type_synonym window = "bytes list"

text \<open>
  The body of the loop computes the hashes of the window's n-grams:
  \<^verbatim>\<open>nghs.append(binascii.crc32(ngram) & 0xffffffff)\<close>.
\<close>

definition ngram_hashes :: "window \<Rightarrow> 32 word list" where
  "ngram_hashes window = map (\<lambda>ngram. crc32 ngram AND 0xffffffff) window"

text \<open>
  \<^verbatim>\<open>min_hash in (nghs[0], nghs[-1])\<close>, for a non-empty list of hashes.
\<close>

definition min_at_end :: "32 word list \<Rightarrow> bool" where
  "min_at_end nghs = (let min_hash = Min (set nghs) in min_hash = hd nghs \<or> min_hash = last nghs)"

text \<open>
  A generator is modelled by the list of values it yields, in order; the loop returns with
  the final values of the variables \<^verbatim>\<open>last\<close> and \<^verbatim>\<open>window\<close>, or it raises
  (\<^verbatim>\<open>min\<close> of an empty sequence raises \<^verbatim>\<open>ValueError\<close>) after the values yielded so far.
\<close>

definition yield :: "'a \<Rightarrow> 'a list \<times> 'r \<Rightarrow> 'a list \<times> 'r" where
  "yield x rest = (x # fst rest, snd rest)"

fun select_loop ::
  "nat \<Rightarrow> window list \<Rightarrow> window option \<Rightarrow> window option \<Rightarrow>
     window list \<times> (error + window option \<times> window option)" where
  "select_loop pos [] lastw window = ([], Inr (lastw, window))"
| "select_loop pos (w # rest) lastw window =
     (let nghs = ngram_hashes w in
      if nghs = [] then ([], Inl ValueError)
      else if min_at_end nghs
        then yield w (select_loop (Suc pos) rest (Some w) (Some w))
      else if pos = 0
        then yield w (select_loop (Suc pos) rest (Some w) (Some w))
      else select_loop (Suc pos) rest lastw (Some w))"

text \<open>
  After the loop: \<^verbatim>\<open>if last != window: yield window\<close>. Windows are compared by value.
  The result is the list of yielded windows and the exception, if one was raised.
\<close>

definition select_windows :: "window list \<Rightarrow> window list \<times> error option" where
  "select_windows windows =
     (case select_loop 0 windows None None of
        (ys, Inl e) \<Rightarrow> (ys, Some e)
      | (ys, Inr (lastw, window)) \<Rightarrow>
          (if lastw \<noteq> window
           then (case window of None \<Rightarrow> (ys, None) | Some w \<Rightarrow> (ys @ [w], None))
           else (ys, None)))"

text \<open>The selection rule on a window, as the loop applies it.\<close>

definition selected :: "window \<Rightarrow> bool" where
  "selected w = min_at_end (ngram_hashes w)"

section \<open>The fingerprint codec\<close>

subsection \<open>The format \<^verbatim>\<open>'%08x' % n\<close>\<close>

definition hex_char :: "nat \<Rightarrow> char" where
  "hex_char d = ''0123456789abcdef'' ! d"

text \<open>The lowercase hexadecimal digits of a natural number, most significant first.\<close>

function hex_digits :: "nat \<Rightarrow> string" where
  "hex_digits n = (if n < 16 then [hex_char n] else hex_digits (n div 16) @ [hex_char (n mod 16)])"
  by pat_completeness auto
termination
  by (relation "measure (\<lambda>n. n)") auto

declare hex_digits.simps [simp del]

definition zfill :: "nat \<Rightarrow> string \<Rightarrow> string" where
  "zfill width s = replicate (width - length s) (CHR ''0'') @ s"

text \<open>
  The sign counts in the field width: \<^verbatim>\<open>'%08x' % -1\<close> is \<^verbatim>\<open>'-0000001'\<close>. A number that
  needs more than eight digits is rendered in full.
\<close>

definition percent_08x :: "int \<Rightarrow> string" where
  "percent_08x n =
     (if n < 0 then CHR ''-'' # zfill 7 (hex_digits (nat (- n)))
      else zfill 8 (hex_digits (nat n)))"

subsection \<open>\<^verbatim>\<open>int(s, 16)\<close>\<close>

text \<open>
  Python's \<^verbatim>\<open>int(s, 16)\<close> on a string of code points below 256: optional surrounding
  whitespace, an optional sign, an optional prefix \<^verbatim>\<open>0x\<close> or \<^verbatim>\<open>0X\<close>, then hexadecimal
  digits, where single underscores may stand between digits (and right after the prefix).
  Anything else raises \<^verbatim>\<open>ValueError\<close>. Whitespace is the six ASCII characters that C's
  \<^verbatim>\<open>isspace\<close> accepts and, of the other code points, the next-line character U+0085 and
  the no-break space U+00A0.
\<close>

definition is_space :: "char \<Rightarrow> bool" where
  "is_space c =
     (c \<in> set [CHR '' '', CHR 0x09, CHR 0x0A, CHR 0x0B, CHR 0x0C, CHR 0x0D, CHR 0x85, CHR 0xA0])"

definition hex_value :: "char \<Rightarrow> nat option" where
  "hex_value c =
     map_of (zip ''0123456789abcdefABCDEF''
               [0, 1, 2, 3, 4, 5, 6, 7, 8, 9, 10, 11, 12, 13, 14, 15, 10, 11, 12, 13, 14, 15]) c"

fun parse_digits :: "nat \<Rightarrow> string \<Rightarrow> nat option" where
  "parse_digits acc [] = Some acc"
| "parse_digits acc (c # cs) =
     (if c = CHR ''_'' then
        (case cs of
           [] \<Rightarrow> None
         | d # ds \<Rightarrow>
             (case hex_value d of None \<Rightarrow> None | Some v \<Rightarrow> parse_digits (16 * acc + v) ds))
      else
        (case hex_value c of None \<Rightarrow> None | Some v \<Rightarrow> parse_digits (16 * acc + v) cs))"

definition parse_hex :: "string \<Rightarrow> nat option" where
  "parse_hex s =
     (case s of
        [] \<Rightarrow> None
      | c # cs \<Rightarrow> (case hex_value c of None \<Rightarrow> None | Some v \<Rightarrow> parse_digits v cs))"

definition strip_sign :: "string \<Rightarrow> int \<times> string" where
  "strip_sign s =
     (case s of
        [] \<Rightarrow> (1, s)
      | c # cs \<Rightarrow> if c = CHR ''+'' then (1, cs) else if c = CHR ''-'' then (- 1, cs) else (1, s))"

definition strip_0x :: "string \<Rightarrow> string" where
  "strip_0x s =
     (case s of
        z # x # r \<Rightarrow>
          if z = CHR ''0'' \<and> (x = CHR ''x'' \<or> x = CHR ''X'')
          then (case r of [] \<Rightarrow> r | u # r' \<Rightarrow> if u = CHR ''_'' then r' else r)
          else s
      | _ \<Rightarrow> s)"

definition py_int16 :: "string \<Rightarrow> error + int" where
  "py_int16 s =
     (let (sign, s2) = strip_sign (dropWhile is_space s);
          s3 = strip_0x s2;
          s4 = rev (dropWhile is_space (rev s3))
      in case parse_hex s4 of
           None \<Rightarrow> Inl ValueError
         | Some v \<Rightarrow> Inr (sign * int v))"

subsection \<open>split\_fingerprint\<close>

definition split_fingerprint :: "string \<Rightarrow> error + int \<times> string" where
  "split_fingerprint directory_fingerprint =
     (let indexed_elements_count_hash = take 8 directory_fingerprint in
      case py_int16 indexed_elements_count_hash of
        Inl e \<Rightarrow> Inl e
      | Inr indexed_elements_count \<Rightarrow>
          (let bah128 = drop 8 directory_fingerprint in Inr (indexed_elements_count, bah128)))"

subsection \<open>binascii.unhexlify, binascii.hexlify\<close>

text \<open>
  \<^verbatim>\<open>binascii.unhexlify\<close> of a string: \<^verbatim>\<open>ValueError\<close> when a character is not ASCII,
  \<^verbatim>\<open>binascii.Error\<close> when the length is odd or a character is not a hexadecimal digit.
\<close>

definition is_ascii :: "char \<Rightarrow> bool" where
  "is_ascii c = ((of_char c :: nat) < 128)"

fun unhexlify_pairs :: "string \<Rightarrow> error + bytes" where
  "unhexlify_pairs [] = Inr []"
| "unhexlify_pairs [c] = Inl BinasciiError"
| "unhexlify_pairs (a # b # rest) =
     (case (hex_value a, hex_value b) of
        (Some hi, Some lo) \<Rightarrow>
          (case unhexlify_pairs rest of
             Inl e \<Rightarrow> Inl e
           | Inr bs \<Rightarrow> Inr (of_nat (16 * hi + lo) # bs))
      | _ \<Rightarrow> Inl BinasciiError)"

definition unhexlify :: "string \<Rightarrow> error + bytes" where
  "unhexlify hex_string =
     (if \<not> list_all is_ascii hex_string then Inl ValueError
      else if odd (length hex_string) then Inl BinasciiError
      else unhexlify_pairs hex_string)"

definition hexlify :: "bytes \<Rightarrow> string" where
  "hexlify data = concat (map (\<lambda>b. [hex_char (unat b div 16), hex_char (unat b mod 16)]) data)"

text \<open>
  Hexadecimal digits and well-formed input of \<^verbatim>\<open>unhexlify\<close>, for the statements below: a
  character is a hexadecimal digit when it has a value; a string of such digits stands for
  a number; \<^verbatim>\<open>unhexlify\<close> accepts the strings of an even number of such digits.
\<close>

definition hex_digit :: "char \<Rightarrow> bool" where
  "hex_digit c = (hex_value c \<noteq> None)"

definition hex_string_value :: "string \<Rightarrow> nat" where
  "hex_string_value s = foldl (\<lambda>a c. 16 * a + the (hex_value c)) 0 s"

definition hex_chunk :: "string \<Rightarrow> bool" where
  "hex_chunk s = (even (length s) \<and> list_all hex_digit s)"

subsection \<open>hexstring\_to\_binarray, create\_halohash\_chunks\<close>

definition hexstring_to_binarray :: "string \<Rightarrow> error + bytes" where
  "hexstring_to_binarray hex_string = unhexlify hex_string"

text \<open>A slice \<^verbatim>\<open>s[i:j]\<close> with \<open>0 \<le> i \<le> j\<close> never raises: it is cut at the end of the string.\<close>

definition slice :: "nat \<Rightarrow> nat \<Rightarrow> 'a list \<Rightarrow> 'a list" where
  "slice i j s = take (j - i) (drop i s)"

definition create_halohash_chunks :: "string \<Rightarrow> error + bytes \<times> bytes \<times> bytes \<times> bytes" where
  "create_halohash_chunks bah128 =
     (let chunk1 = slice 0 8 bah128;
          chunk2 = slice 8 16 bah128;
          chunk3 = slice 16 24 bah128;
          chunk4 = slice 24 32 bah128
      in case hexstring_to_binarray chunk1 of
           Inl e \<Rightarrow> Inl e
         | Inr chunk1 \<Rightarrow>
      (case hexstring_to_binarray chunk2 of
           Inl e \<Rightarrow> Inl e
         | Inr chunk2 \<Rightarrow>
      (case hexstring_to_binarray chunk3 of
           Inl e \<Rightarrow> Inl e
         | Inr chunk3 \<Rightarrow>
      (case hexstring_to_binarray chunk4 of
           Inl e \<Rightarrow> Inl e
         | Inr chunk4 \<Rightarrow> Inr (chunk1, chunk2, chunk3, chunk4)))))"

section \<open>The tokenizer\<close>

text \<open>
  \<^verbatim>\<open>re.compile('[^_\\W]+', re.UNICODE).findall\<close>: the matches, leftmost first and each as long
  as possible, of one or more characters of the class. Which characters the class \<^verbatim>\<open>\w\<close> holds
  is the regular-expression engine's table, a parameter \<open>w\<close> here; the pattern's class is
  \<^verbatim>\<open>\w\<close> without the underscore.
\<close>

definition query_class :: "(char \<Rightarrow> bool) \<Rightarrow> char \<Rightarrow> bool" where
  "query_class w c = (c \<noteq> CHR ''_'' \<and> w c)"

function findall :: "(char \<Rightarrow> bool) \<Rightarrow> string \<Rightarrow> string list" where
  "findall cls [] = []"
| "findall cls (c # cs) =
     (if cls c then (c # takeWhile cls cs) # findall cls (dropWhile cls cs)
      else findall cls cs)"
  by pat_completeness auto
termination
proof (relation "measure (\<lambda>(cls, s). length s)")
  fix cls :: "char \<Rightarrow> bool" and c :: char and cs :: string
  have "length (dropWhile cls cs) \<le> length cs"
    by (rule length_dropWhile_le)
  then show "((cls, dropWhile cls cs), (cls, c # cs)) \<in> measure (\<lambda>(cls, s). length s)"
    by simp
qed auto

definition word_splitter :: "(char \<Rightarrow> bool) \<Rightarrow> string \<Rightarrow> string list" where
  "word_splitter w text = findall (query_class w) text"

text \<open>
  \<^verbatim>\<open>_tokenizer(text)\<close> starts with \<^verbatim>\<open>if not text: return []\<close>, which holds for \<^verbatim>\<open>None\<close>
  and for the empty string.
\<close>

definition tokenizer' :: "(char \<Rightarrow> bool) \<Rightarrow> string option \<Rightarrow> string list" where
  "tokenizer' w text =
     (case text of
        None \<Rightarrow> []
      | Some t \<Rightarrow>
          if t = [] then [] else filter (\<lambda>token. token \<noteq> []) (word_splitter w t))"

text \<open>
  \<^verbatim>\<open>tokenizer(text)\<close> calls \<^verbatim>\<open>text.lower()\<close>, which raises \<^verbatim>\<open>AttributeError\<close> when
  \<^verbatim>\<open>text\<close> is \<^verbatim>\<open>None\<close>. The method \<^verbatim>\<open>str.lower\<close> is the parameter \<open>lower\<close>.
\<close>

definition tokenizer :: "(string \<Rightarrow> string) \<Rightarrow> (char \<Rightarrow> bool) \<Rightarrow> string option \<Rightarrow> error + string list" where
  "tokenizer lower w text =
     (case text of
        None \<Rightarrow> Inl AttributeError
      | Some t \<Rightarrow> Inr (tokenizer' w (Some (lower t))))"

text \<open>
  What it means for tokens to be the maximal runs of characters of a class in a text: the
  text is a separator, a token, a separator, a token, and so on up to a last separator,
  where separators hold no character of the class and only the first and the last separator
  may be empty, and tokens are non-empty and hold characters of the class only.
\<close>

fun weave :: "string list \<Rightarrow> string list \<Rightarrow> string" where
  "weave [] ts = []"
| "weave (s # seps) [] = s"
| "weave (s # seps) (t # ts) = s @ t @ weave seps ts"

definition separator_runs :: "(char \<Rightarrow> bool) \<Rightarrow> string list \<Rightarrow> bool" where
  "separator_runs cls seps =
     (list_all (\<lambda>s. list_all (\<lambda>c. \<not> cls c) s) seps \<and>
      list_all (\<lambda>s. s \<noteq> []) (butlast (tl seps)))"

definition word_tokens :: "(char \<Rightarrow> bool) \<Rightarrow> string list \<Rightarrow> bool" where
  "word_tokens cls ts = list_all (\<lambda>t. t \<noteq> [] \<and> list_all cls t) ts"

text \<open>What \<^verbatim>\<open>str.lower\<close> and \<^verbatim>\<open>\w\<close> are on ASCII text.\<close>

definition ascii_lower_char :: "char \<Rightarrow> char" where
  "ascii_lower_char c =
     (case map_of (zip ''ABCDEFGHIJKLMNOPQRSTUVWXYZ'' ''abcdefghijklmnopqrstuvwxyz'') c of
        Some l \<Rightarrow> l
      | None \<Rightarrow> c)"

definition ascii_lower :: "string \<Rightarrow> string" where
  "ascii_lower s = map ascii_lower_char s"

definition ascii_w :: "char \<Rightarrow> bool" where
  "ascii_w c =
     (let k = (of_char c :: nat) in
      (48 \<le> k \<and> k \<le> 57) \<or> (65 \<le> k \<and> k \<le> 90) \<or> (97 \<le> k \<and> k \<le> 122) \<or> k = 95)"

section \<open>The file fingerprint pipeline\<close>

text \<open>
  The n-gram generator \<^verbatim>\<open>licensedcode.tokenize.ngrams\<close> is an external library function:
  a \<^verbatim>\<open>zip\<close> over the sequence shifted by \<open>0, 1, \<dots>, n - 1\<close> items, that is, every run of
  exactly \<open>n\<close> consecutive items, and nothing when the sequence has fewer than \<open>n\<close> items.
\<close>

definition ngrams :: "'a list \<Rightarrow> nat \<Rightarrow> 'a list list" where
  "ngrams iterable ngram_length =
     (if ngram_length = 0 then []
      else map (\<lambda>i. take ngram_length (drop i iterable))
             [0 ..< Suc (length iterable) - ngram_length])"

text \<open>
  \<^verbatim>\<open>str.encode('utf-8')\<close> for code points below 256, which is what a \<^typ>\<open>char\<close> holds, and
  \<^verbatim>\<open>' '.join\<close>.
\<close>

definition encode_utf8 :: "string \<Rightarrow> bytes" where
  "encode_utf8 s =
     concat (map (\<lambda>c. let k = (of_char c :: nat) in
                        if k < 128 then [of_nat k]
                        else [of_nat (192 + k div 64), of_nat (128 + k mod 64)]) s)"

fun join :: "string \<Rightarrow> string list \<Rightarrow> string" where
  "join sep [] = []"
| "join sep [x] = x"
| "join sep (x # y # ys) = x @ sep @ join sep (y # ys)"

text \<open>
  What the function reads of the file system: \<^verbatim>\<open>filetype.is_file(location)\<close>,
  \<^verbatim>\<open>get_type(location).is_text\<close> and the text that \<^verbatim>\<open>codecs.open(\<dots>).read()\<close> returns,
  or the exception it raises.
\<close>

record location =
  is_regular_file :: bool
  is_text :: bool
  content :: "error + string"

text \<open>The values of the returned mapping: a digest, or a list of digests.\<close>

datatype hashes = Digest string | Digests "string list"

text \<open>
  \<^verbatim>\<open>BitAverageHaloHash(msgs, size_in_bits).hexdigest().decode('utf-8')\<close> is the parameter
  \<open>bah\<close>: the module \<^verbatim>\<open>matchcode_toolkit.halohash\<close> is taken as given. Its first argument
  is the size in bits, \<open>None\<close> when the call leaves it to the default.
\<close>

type_synonym halohash = "nat option \<Rightarrow> bytes list \<Rightarrow> string"

definition get_file_fingerprint_hashes ::
  "(string \<Rightarrow> string) \<Rightarrow> (char \<Rightarrow> bool) \<Rightarrow> halohash \<Rightarrow> location \<Rightarrow>
     error + (string \<rightharpoonup> hashes)" where
  "get_file_fingerprint_hashes lower w bah loc =
     (let ngram_length = 8; window_length = 64 in
      if \<not> is_regular_file loc then Inr Map.empty
      else if \<not> is_text loc then Inr Map.empty
      else
        case content loc of
          Inl e \<Rightarrow> Inl e
        | Inr text \<Rightarrow>
        (case tokenizer lower w (Some text) of
          Inl e \<Rightarrow> Inl e
        | Inr words \<Rightarrow>
          (let ngs = ngrams words ngram_length;
               ngs = map (\<lambda>ng. encode_utf8 (join '' '' ng)) ngs;
               windows = ngrams ngs window_length;
               selected_windows = select_windows windows;
               file_fingerprint = (if ngs \<noteq> [] then Some (bah None ngs) else None)
           in case snd selected_windows of
                Some e \<Rightarrow> Inl e
              | None \<Rightarrow>
                (let chunk_fingerprints = map (bah None) (fst selected_windows)
                 in Inr [''halo1'' \<mapsto>
                           Digest (case file_fingerprint of Some d \<Rightarrow> d | None \<Rightarrow> []),
                         ''chunks_halo1'' \<mapsto> Digests chunk_fingerprints]))))"

section \<open>Directory fingerprints\<close>

subsection \<open>Resources\<close>

text \<open>
  An attribute that a resource class may or may not declare (\<^verbatim>\<open>hasattr\<close>), holding a string
  once it is assigned.
\<close>

datatype attribute = NoAttribute | Attribute "string option"

record resource =
  path :: string
  is_file :: bool
  size :: "int option"
  sha1 :: "string option"
  extra_data :: "string \<rightharpoonup> string"
  directory_content_fingerprint :: attribute
  directory_structure_fingerprint :: attribute

subsection \<open>\<^verbatim>\<open>str(n)\<close>, \<^verbatim>\<open>a / b\<close> and \<^verbatim>\<open>int(x)\<close>\<close>

definition dec_char :: "nat \<Rightarrow> char" where
  "dec_char d = ''0123456789'' ! d"

function dec_digits :: "nat \<Rightarrow> string" where
  "dec_digits n = (if n < 10 then [dec_char n] else dec_digits (n div 10) @ [dec_char (n mod 10)])"
  by pat_completeness auto
termination
  by (relation "measure (\<lambda>n. n)") auto

declare dec_digits.simps [simp del]

definition str_int :: "int \<Rightarrow> string" where
  "str_int n = (if n < 0 then CHR ''-'' # dec_digits (nat (- n)) else dec_digits (nat n))"

text \<open>
  True division of integers gives the double nearest to the quotient, ties to the even
  significand, and raises \<^verbatim>\<open>OverflowError\<close> when the result is too large for a double.
  A double is modelled by the rational number it stands for.
\<close>

function bit_length :: "nat \<Rightarrow> nat" where
  "bit_length n = (if n = 0 then 0 else Suc (bit_length (n div 2)))"
  by pat_completeness auto
termination
  by (relation "measure (\<lambda>n. n)") auto

declare bit_length.simps [simp del]

text \<open>For \<open>0 < x\<close>, the exponent \<open>e\<close> with \<open>2 ^ e \<le> x < 2 ^ (e + 1)\<close>.\<close>

definition binary_exponent :: "rat \<Rightarrow> int" where
  "binary_exponent x =
     (if 1 \<le> x then int (bit_length (nat \<lfloor>x\<rfloor>)) - 1
      else - int (bit_length (nat (\<lceil>1 / x\<rceil> - 1))))"

definition pow2 :: "int \<Rightarrow> rat" where
  "pow2 e = (if 0 \<le> e then 2 ^ nat e else 1 / 2 ^ nat (- e))"

definition round_half_even :: "rat \<Rightarrow> int" where
  "round_half_even x =
     (let f = \<lfloor>x\<rfloor>; r = x - of_int f in
      if r < 1 / 2 then f
      else if 1 / 2 < r then f + 1
      else if even f then f else f + 1)"

definition to_double :: "rat \<Rightarrow> error + rat" where
  "to_double x =
     (if x = 0 then Inr 0
      else
        let a = \<bar>x\<bar>;
            e = binary_exponent a;
            p = max (e - 52) (- 1074);
            m = round_half_even (a / pow2 p);
            d = of_int m * pow2 p
        in if 2 ^ 1024 \<le> d then Inl OverflowError else Inr (sgn x * d))"

definition true_divide :: "int \<Rightarrow> int \<Rightarrow> error + rat" where
  "true_divide a b = (if b = 0 then Inl ZeroDivisionError else to_double (of_int a / of_int b))"

text \<open>\<^verbatim>\<open>int(x)\<close> of a float truncates towards zero.\<close>

definition int_of_float :: "rat \<Rightarrow> int" where
  "int_of_float x = (if 0 \<le> x then \<lfloor>x\<rfloor> else \<lceil>x\<rceil>)"

subsection \<open>\<^verbatim>\<open>str.partition\<close> and \<^verbatim>\<open>str.lstrip\<close>\<close>

text \<open>The text before and after the first occurrence of \<open>sep\<close>.\<close>

fun find_first :: "string \<Rightarrow> string \<Rightarrow> (string \<times> string) option" where
  "find_first sep [] = (if sep = [] then Some ([], []) else None)"
| "find_first sep (c # cs) =
     (if prefix sep (c # cs) then Some ([], drop (length sep) (c # cs))
      else map_option (\<lambda>(before, after). (c # before, after)) (find_first sep cs))"

definition partition_str :: "string \<Rightarrow> string \<Rightarrow> error + string \<times> string \<times> string" where
  "partition_str s sep =
     (if sep = [] then Inl ValueError
      else case find_first sep s of
             None \<Rightarrow> Inr (s, [], [])
           | Some (before, after) \<Rightarrow> Inr (before, sep, after))"

definition lstrip :: "char \<Rightarrow> string \<Rightarrow> string" where
  "lstrip c s = dropWhile (\<lambda>x. x = c) s"

subsection \<open>The fingerprints\<close>

definition create_directory_fingerprint' :: "halohash \<Rightarrow> string list \<Rightarrow> string" where
  "create_directory_fingerprint' bah inputs =
     (let inputs = map encode_utf8 (filter (\<lambda>i. i \<noteq> []) inputs);
          bah128 = bah (Some 128) inputs;
          inputs_count = int (length inputs);
          inputs_count_hex_str = percent_08x inputs_count;
          directory_fingerprint = inputs_count_hex_str @ bah128
      in directory_fingerprint)"

text \<open>\<^verbatim>\<open>[r.sha1 for r in resources if r.sha1]\<close>: a hash that is absent or empty is left out.\<close>

definition sha1_features :: "resource list \<Rightarrow> string list" where
  "sha1_features resources =
     concat (map (\<lambda>r. case sha1 r of None \<Rightarrow> [] | Some h \<Rightarrow> if h = [] then [] else [h]) resources)"

definition create_content_fingerprint :: "halohash \<Rightarrow> resource list \<Rightarrow> string" where
  "create_content_fingerprint bah resources =
     (let features = sha1_features resources in create_directory_fingerprint' bah features)"

definition get_resource_subpath' :: "resource \<Rightarrow> resource \<Rightarrow> error + string" where
  "get_resource_subpath' res top_res =
     (case partition_str (path res) (path top_res) of
        Inl e \<Rightarrow> Inl e
      | Inr (before, sep, subpath) \<Rightarrow> Inr (lstrip (CHR ''/'') subpath))"

text \<open>\<^verbatim>\<open>if not child.size\<close>: the size is absent or zero.\<close>

definition rounded_size :: "int option \<Rightarrow> error + int" where
  "rounded_size sz =
     (case sz of
        None \<Rightarrow> Inr 0
      | Some n \<Rightarrow>
          if n = 0 then Inr 0
          else (case true_divide n 10 of
                  Inl e \<Rightarrow> Inl e
                | Inr q \<Rightarrow> Inr (int_of_float q * 10)))"

text \<open>
  One round of the loop of \<^verbatim>\<open>create_structure_fingerprint\<close>: the feature appended for a
  child, \<open>None\<close> when the child is skipped.
\<close>

definition path_feature :: "resource \<Rightarrow> resource \<Rightarrow> error + string option" where
  "path_feature directory child =
     (if path child = [] then Inr None
      else
        case get_resource_subpath' child directory of
          Inl e \<Rightarrow> Inl e
        | Inr child_subpath \<Rightarrow>
            (case rounded_size (size child) of
               Inl e \<Rightarrow> Inl e
             | Inr rounded_child_size \<Rightarrow> Inr (Some (str_int rounded_child_size @ child_subpath))))"

fun structure_features :: "resource \<Rightarrow> resource list \<Rightarrow> error + string list" where
  "structure_features directory [] = Inr []"
| "structure_features directory (child # children) =
     (case path_feature directory child of
        Inl e \<Rightarrow> Inl e
      | Inr f \<Rightarrow>
          (case structure_features directory children of
             Inl e \<Rightarrow> Inl e
           | Inr features \<Rightarrow> Inr (case f of None \<Rightarrow> features | Some x \<Rightarrow> x # features)))"

definition create_structure_fingerprint ::
  "halohash \<Rightarrow> resource \<Rightarrow> resource list \<Rightarrow> error + string" where
  "create_structure_fingerprint bah directory children =
     (case structure_features directory children of
        Inl e \<Rightarrow> Inl e
      | Inr features \<Rightarrow> Inr (create_directory_fingerprint' bah features))"

subsection \<open>\_compute\_directory\_fingerprints\<close>

text \<open>
  The tree is an external collaborator: \<open>walk directory codebase\<close> lists the descendants of
  a directory and \<open>save directory codebase\<close> persists a resource; both are parameters, as is
  the type of the codebase. The call returns a resource or \<^verbatim>\<open>None\<close>, or raises; with it
  come the directory object and the codebase as the call leaves them.
\<close>

definition set_content_fingerprint :: "string \<Rightarrow> resource \<Rightarrow> resource" where
  "set_content_fingerprint fp directory =
     (case directory_content_fingerprint directory of
        Attribute old \<Rightarrow> directory\<lparr>directory_content_fingerprint := Attribute (Some fp)\<rparr>
      | NoAttribute \<Rightarrow>
          directory\<lparr>extra_data := (extra_data directory)(''directory_content'' \<mapsto> fp)\<rparr>)"

definition set_structure_fingerprint :: "string \<Rightarrow> resource \<Rightarrow> resource" where
  "set_structure_fingerprint fp directory =
     (case directory_structure_fingerprint directory of
        Attribute old \<Rightarrow> directory\<lparr>directory_structure_fingerprint := Attribute (Some fp)\<rparr>
      | NoAttribute \<Rightarrow>
          directory\<lparr>extra_data := (extra_data directory)(''directory_structure'' \<mapsto> fp)\<rparr>)"

definition nonempty_file :: "resource \<Rightarrow> bool" where
  "nonempty_file r = (is_file r \<and> (case size r of None \<Rightarrow> False | Some n \<Rightarrow> n \<noteq> 0))"

definition compute_directory_fingerprints' ::
  "(resource \<Rightarrow> 'cb \<Rightarrow> resource list) \<Rightarrow> (resource \<Rightarrow> 'cb \<Rightarrow> 'cb) \<Rightarrow> halohash \<Rightarrow>
     resource \<Rightarrow> 'cb \<Rightarrow> (error + resource option) \<times> resource \<times> 'cb" where
  "compute_directory_fingerprints' walk save bah directory codebase =
     (let children = filter nonempty_file (walk directory codebase) in
      if length children \<le> 1 then (Inr None, directory, codebase)
      else
        let content_fingerprint = create_content_fingerprint bah children;
            directory = set_content_fingerprint content_fingerprint directory
        in case create_structure_fingerprint bah directory children of
             Inl e \<Rightarrow> (Inl e, directory, codebase)
           | Inr structure_fingerprint \<Rightarrow>
               (let directory = set_structure_fingerprint structure_fingerprint directory;
                    codebase = save directory codebase
                in (Inr (Some directory), directory, codebase)))"

text \<open>
  The content fingerprint of a resource, wherever it was stored: the dedicated attribute, or
  the key \<^verbatim>\<open>directory_content\<close> of \<^verbatim>\<open>extra_data\<close>.
\<close>

definition content_fingerprint_of :: "resource \<Rightarrow> string option" where
  "content_fingerprint_of r =
     (case directory_content_fingerprint r of
        Attribute v \<Rightarrow> v
      | NoAttribute \<Rightarrow> extra_data r ''directory_content'')"

definition structure_fingerprint_of :: "resource \<Rightarrow> string option" where
  "structure_fingerprint_of r =
     (case directory_structure_fingerprint r of
        Attribute v \<Rightarrow> v
      | NoAttribute \<Rightarrow> extra_data r ''directory_structure'')"

text \<open>\<^verbatim>\<open>if r.sha1\<close>: the content hash is present and not empty.\<close>

definition has_sha1 :: "resource \<Rightarrow> bool" where
  "has_sha1 r = (case sha1 r of None \<Rightarrow> False | Some h \<Rightarrow> h \<noteq> [])"

subsection \<open>Example resources\<close>

text \<open>
  A directory \<^verbatim>\<open>d\<close> with two files of sizes 15 and 27 and content hashes \<^verbatim>\<open>A\<close> and
  \<^verbatim>\<open>B\<close>, and a hash primitive that always answers with 32 zeros.
\<close>

definition file_a :: resource where
  "file_a = \<lparr>path = ''d/a.c'', is_file = True, size = Some 15, sha1 = Some ''A'',
     extra_data = Map.empty, directory_content_fingerprint = NoAttribute,
     directory_structure_fingerprint = NoAttribute\<rparr>"

definition file_b :: resource where
  "file_b = \<lparr>path = ''d/b.c'', is_file = True, size = Some 27, sha1 = Some ''B'',
     extra_data = Map.empty, directory_content_fingerprint = NoAttribute,
     directory_structure_fingerprint = NoAttribute\<rparr>"

definition dir_d :: resource where
  "dir_d = \<lparr>path = ''d'', is_file = False, size = None, sha1 = None,
     extra_data = Map.empty, directory_content_fingerprint = NoAttribute,
     directory_structure_fingerprint = NoAttribute\<rparr>"

definition zero_hash :: halohash where
  "zero_hash bits msgs = replicate 32 (CHR ''0'')"

text \<open>Any number of files like the first, with paths \<^verbatim>\<open>d/0\<close>, \<^verbatim>\<open>d/1\<close>, and so on.\<close>

definition numbered_file :: "nat \<Rightarrow> resource" where
  "numbered_file i = file_a\<lparr>path := ''d/'' @ dec_digits i\<rparr>"

definition many_files :: "nat \<Rightarrow> resource list" where
  "many_files n = map numbered_file [0 ..< n]"

section \<open>Properties of select\_windows\<close>

lemma ngram_hashes_Nil_iff: "ngram_hashes w = [] \<longleftrightarrow> w = []"
  by (simp add: ngram_hashes_def)

lemma select_loop_later:
  assumes "\<forall>w \<in> set ws. w \<noteq> []" and "0 < pos"
  shows "select_loop pos ws lastw window =
           (filter selected ws,
            Inr (if filter selected ws = [] then lastw else Some (last (filter selected ws)),
                 if ws = [] then window else Some (last ws)))"
  using assms
proof (induction ws arbitrary: pos lastw window)
  case Nil
  then show ?case by simp
next
  case (Cons w ws)
  have ne: "ngram_hashes w \<noteq> []"
    using Cons.prems(1) by (simp add: ngram_hashes_Nil_iff)
  have rest: "\<forall>w \<in> set ws. w \<noteq> []"
    using Cons.prems(1) by simp
  have pos': "0 < Suc pos" by simp
  note IH = Cons.IH [OF rest pos']
  show ?case
  proof (cases "selected w")
    case True
    then have rule: "min_at_end (ngram_hashes w)"
      by (simp add: selected_def)
    show ?thesis
      using ne rule True IH [of "Some w" "Some w"]
      by (simp add: yield_def)
  next
    case False
    then have rule: "\<not> min_at_end (ngram_hashes w)"
      by (simp add: selected_def)
    show ?thesis
      using ne rule False Cons.prems(2) IH [of lastw "Some w"]
      by simp
  qed
qed

lemma select_loop_first:
  assumes "w \<noteq> []" and "\<forall>v \<in> set ws. v \<noteq> []"
  shows "select_loop 0 (w # ws) lastw window =
           (w # filter selected ws,
            Inr (Some (last (w # filter selected ws)), Some (last (w # ws))))"
proof -
  have ne: "ngram_hashes w \<noteq> []"
    using assms(1) by (simp add: ngram_hashes_Nil_iff)
  have later: "select_loop (Suc 0) ws (Some w) (Some w) =
      (filter selected ws,
       Inr (if filter selected ws = [] then Some w else Some (last (filter selected ws)),
            if ws = [] then Some w else Some (last ws)))"
    by (rule select_loop_later [OF assms(2)]) simp
  show ?thesis
    using ne later by (simp add: yield_def)
qed

text \<open>
  The whole output for a non-empty input of non-empty windows: the first window, the later
  windows that satisfy the rule, and the final window once more when it differs (by value)
  from the window yielded last.
\<close>

lemma select_windows_Cons:
  assumes "w \<noteq> []" and "\<forall>v \<in> set ws. v \<noteq> []"
  shows "select_windows (w # ws) =
           (if last (w # filter selected ws) \<noteq> last (w # ws)
            then (w # filter selected ws @ [last (w # ws)], None)
            else (w # filter selected ws, None))"
  unfolding select_windows_def select_loop_first [OF assms]
  by simp

lemma select_windows_Nil: "select_windows [] = ([], None)"
  by (simp add: select_windows_def)

text \<open>On a window without n-grams \<^verbatim>\<open>min\<close> raises, here before anything is yielded.\<close>

lemma select_windows_empty_window: "select_windows ([] # ws) = ([], Some ValueError)"
  by (simp add: select_windows_def ngram_hashes_def)

lemma filter_snoc_unselected:
  assumes "ws \<noteq> []" and "\<not> P (last ws)"
  shows "filter P ws = filter P (butlast ws)"
proof -
  have "ws = butlast ws @ [last ws]" using assms(1) by simp
  then have "filter P ws = filter P (butlast ws @ [last ws])" by simp
  then show ?thesis using assms(2) by simp
qed

lemma last_filter_selected:
  assumes "ws \<noteq> []" and "P (last ws)"
  shows "last (w # filter P ws) = last ws"
proof -
  have "ws = butlast ws @ [last ws]" using assms(1) by simp
  then have "filter P ws = filter P (butlast ws) @ [last ws]"
    using assms(2) by (metis filter.simps(1) filter.simps(2) filter_append)
  then show ?thesis by simp
qed

lemma select_windows_output:
  assumes "w \<noteq> []" and "\<forall>v \<in> set ws. v \<noteq> []"
  shows "\<exists>out. select_windows (w # ws) = (out, None) \<and> subseq out (w # ws) \<and>
           w \<in> set out \<and> last (w # ws) \<in> set out"
proof (cases "last (w # filter selected ws) = last (w # ws)")
  case True
  have "select_windows (w # ws) = (w # filter selected ws, None)"
    using select_windows_Cons [OF assms] True by simp
  moreover have "subseq (w # filter selected ws) (w # ws)" by simp
  moreover have "last (w # ws) \<in> set (w # filter selected ws)"
    using True by (metis last_in_set list.distinct(1))
  ultimately show ?thesis by simp
next
  case False
  then have ne: "ws \<noteq> []" by auto
  have unsel: "\<not> selected (last ws)"
    using False last_filter_selected [OF ne, of selected w] ne by auto
  have out: "select_windows (w # ws) = (w # filter selected ws @ [last (w # ws)], None)"
    using select_windows_Cons [OF assms] False by simp
  have "subseq (filter selected (butlast ws) @ [last ws]) (butlast ws @ [last ws])"
    by (intro list_emb_append_mono) simp_all
  then have "subseq (filter selected ws @ [last ws]) ws"
    using ne filter_snoc_unselected [of ws selected, OF ne unsel] by simp
  then have "subseq (w # filter selected ws @ [last (w # ws)]) (w # ws)"
    using ne by simp
  then show ?thesis using out by simp
qed

text \<open>Two windows over the n-grams \<^verbatim>\<open>b'a'\<close>, \<^verbatim>\<open>b'b'\<close>, \<^verbatim>\<open>b'c'\<close>, whose CRC-32 values are
  3904355907, 1908338681 and 112844655: in the first the least hash is in the middle, in the
  second it comes first.\<close>

lemma selected_acb: "\<not> selected [[97], [99], [98]]"
  unfolding selected_def min_at_end_def ngram_hashes_def by code_simp

lemma selected_ca: "selected [[99], [97]]"
  unfolding selected_def min_at_end_def ngram_hashes_def by code_simp

text \<open>
  Claim C1. Given windows that each hold at least one n-gram (\<^verbatim>\<open>min\<close> raises on an empty
  window), \<^verbatim>\<open>select_windows\<close> returns normally; its output is a subsequence of the input in
  the input's order, so it is no longer than the input; the output of the empty input is
  empty; and for a non-empty input the first and the last input window both occur in the
  output.
\<close>

theorem select_windows_subsequence:
  assumes "\<forall>w \<in> set windows. w \<noteq> []"
  shows "\<exists>out. select_windows windows = (out, None) \<and> subseq out windows \<and>
           length out \<le> length windows \<and>
           (windows = [] \<longrightarrow> out = []) \<and>
           (windows \<noteq> [] \<longrightarrow> hd windows \<in> set out \<and> last windows \<in> set out)"
proof (cases windows)
  case Nil
  then show ?thesis by (simp add: select_windows_Nil)
next
  case (Cons w ws)
  have "w \<noteq> []" and "\<forall>v \<in> set ws. v \<noteq> []"
    using assms Cons by simp_all
  from select_windows_output [OF this] obtain out where
    "select_windows (w # ws) = (out, None)" "subseq out (w # ws)"
    "w \<in> set out" "last (w # ws) \<in> set out"
    by blast
  moreover from this(2) have "length out \<le> length (w # ws)"
    by (rule list_emb_length)
  ultimately show ?thesis using Cons by auto
qed

theorem select_windows_subsequence_witness:
  "\<exists>out. select_windows [[[97], [99], [98]], [[99], [97]], [[97], [99], [98]]] = (out, None) \<and>
     subseq out [[[97], [99], [98]], [[99], [97]], [[97], [99], [98]]] \<and>
     length out \<le> 3 \<and> [[97], [99], [98]] \<in> set out"
  using select_windows_subsequence [of "[[[97], [99], [98]], [[99], [97]], [[97], [99], [98]]]"]
  by (simp add: eval_nat_numeral)

text \<open>
  Claim C2. In an input of non-empty windows, the first window is yielded whatever the rule
  says of it, and a window between the first and the last is yielded exactly when it
  satisfies the rule; after them comes the last window or nothing. The rule, as the loop
  tests it, is that the least of the masked CRC-32 values of the window's n-grams is the
  value of its first n-gram or the value of its last n-gram.
\<close>

theorem select_windows_middle_rule:
  assumes "first \<noteq> []" and "\<forall>w \<in> set middle. w \<noteq> []" and "final \<noteq> []"
  shows "(\<exists>tail. select_windows (first # middle @ [final]) =
             (first # filter selected middle @ tail, None) \<and> (tail = [] \<or> tail = [final])) \<and>
         (\<forall>w \<in> set (first # middle @ [final]). selected w \<longleftrightarrow>
           (let min_hash = Min ((\<lambda>ngram. crc32 ngram AND 0xffffffff) ` set w) in
            min_hash = (crc32 (hd w) AND 0xffffffff) \<or>
            min_hash = (crc32 (last w) AND 0xffffffff)))"
proof
  have all: "\<forall>v \<in> set (middle @ [final]). v \<noteq> []"
    using assms by simp
  show "\<exists>tail. select_windows (first # middle @ [final]) =
             (first # filter selected middle @ tail, None) \<and> (tail = [] \<or> tail = [final])"
    unfolding select_windows_Cons [OF assms(1) all]
    by (cases "selected final") auto
  show "\<forall>w \<in> set (first # middle @ [final]). selected w \<longleftrightarrow>
           (let min_hash = Min ((\<lambda>ngram. crc32 ngram AND 0xffffffff) ` set w) in
            min_hash = (crc32 (hd w) AND 0xffffffff) \<or>
            min_hash = (crc32 (last w) AND 0xffffffff))"
  proof
    fix w assume "w \<in> set (first # middle @ [final])"
    then have "w \<noteq> []" using assms by auto
    then show "selected w \<longleftrightarrow>
           (let min_hash = Min ((\<lambda>ngram. crc32 ngram AND 0xffffffff) ` set w) in
            min_hash = (crc32 (hd w) AND 0xffffffff) \<or>
            min_hash = (crc32 (last w) AND 0xffffffff))"
      by (simp add: selected_def min_at_end_def ngram_hashes_def hd_map last_map)
  qed
qed

text \<open>
  The first window fails the rule and is yielded; of the two windows in the middle only the
  one that satisfies the rule is yielded.
\<close>

theorem select_windows_middle_rule_witness:
  "\<exists>tail. select_windows
       [[[97], [99], [98]], [[99], [97]], [[97], [99], [98]], [[99], [97]]] =
       ([[[97], [99], [98]], [[99], [97]]] @ tail, None) \<and> (tail = [] \<or> tail = [[[99], [97]]])"
  using select_windows_middle_rule
    [of "[[97], [99], [98]]" "[[[99], [97]], [[97], [99], [98]]]" "[[99], [97]]"]
    selected_acb selected_ca
  by simp

text \<open>
  Claim C10. An input of exactly one (non-empty) window yields that window once, whether or
  not it satisfies the rule. In general the loop yields the first window and the later windows
  that satisfy the rule, and afterwards the final window is emitted exactly when it differs,
  as a value, from the window yielded last: a final window that fails the rule and equals
  the window yielded last is not emitted again.
\<close>

theorem select_windows_final_once:
  assumes "w \<noteq> []" and "\<forall>v \<in> set ws. v \<noteq> []"
  shows "select_windows [w] = ([w], None) \<and>
         fst (select_loop 0 (w # ws) None None) = w # filter selected ws \<and>
         (let ys = fst (select_loop 0 (w # ws) None None) in
          select_windows (w # ws) =
            (if last ys = last (w # ws) then ys else ys @ [last (w # ws)], None))"
proof -
  have single: "select_windows [w] = ([w], None)"
    using select_windows_Cons [of w "[]"] assms(1) by simp
  have loop: "fst (select_loop 0 (w # ws) None None) = w # filter selected ws"
    unfolding select_loop_first [OF assms] by simp
  have whole: "select_windows (w # ws) =
      (if last (w # filter selected ws) = last (w # ws) then w # filter selected ws
       else (w # filter selected ws) @ [last (w # ws)], None)"
    using select_windows_Cons [OF assms] by simp
  show ?thesis
    unfolding Let_def loop using single whole by simp
qed

text \<open>
  One window that fails the rule is yielded once; twice the same window, failing the rule,
  is yielded once as well.
\<close>

theorem select_windows_final_once_witness:
  "select_windows [[[97], [99], [98]]] = ([[[97], [99], [98]]], None) \<and>
   select_windows [[[97], [99], [98]], [[97], [99], [98]]] = ([[[97], [99], [98]]], None)"
  using select_windows_final_once [of "[[97], [99], [98]]" "[[[97], [99], [98]]]"]
    select_windows_final_once [of "[[97], [99], [98]]" "[]"] selected_acb
  by (simp add: Let_def)

section \<open>Properties of the fingerprint codec\<close>


lemma hex_digit_not_special:
  assumes "hex_digit c"
  shows "\<not> is_space c" and "c \<noteq> CHR ''+''" and "c \<noteq> CHR ''-''" and "c \<noteq> CHR ''_''"
    and "c \<noteq> CHR ''x''" and "c \<noteq> CHR ''X''"
  using assms by (auto simp: hex_digit_def hex_value_def is_space_def split: if_splits)

lemma parse_digits_plain:
  assumes "\<forall>c \<in> set s. hex_digit c"
  shows "parse_digits acc s = Some (foldl (\<lambda>a c. 16 * a + the (hex_value c)) acc s)"
  using assms
proof (induction s arbitrary: acc)
  case Nil
  then show ?case by simp
next
  case (Cons c s)
  then have c: "hex_digit c" and s: "\<forall>c \<in> set s. hex_digit c" by simp_all
  from c obtain v where v: "hex_value c = Some v" by (auto simp: hex_digit_def)
  show ?case
    using hex_digit_not_special(4) [OF c] v Cons.IH [OF s] by simp
qed

lemma parse_hex_plain:
  assumes "s \<noteq> []" and "\<forall>c \<in> set s. hex_digit c"
  shows "parse_hex s = Some (hex_string_value s)"
proof -
  obtain c cs where s: "s = c # cs" using assms(1) by (cases s) auto
  then have c: "hex_digit c" and cs: "\<forall>c \<in> set cs. hex_digit c" using assms(2) by simp_all
  from c obtain v where v: "hex_value c = Some v" by (auto simp: hex_digit_def)
  show ?thesis
    using s v parse_digits_plain [OF cs] by (simp add: parse_hex_def hex_string_value_def)
qed

lemma py_int16_plain:
  assumes "s \<noteq> []" and "\<forall>c \<in> set s. hex_digit c"
  shows "py_int16 s = Inr (int (hex_string_value s))"
proof -
  obtain c cs where s: "s = c # cs" using assms(1) by (cases s) auto
  then have c: "hex_digit c" using assms(2) by simp
  have lead: "dropWhile is_space s = s"
    using s hex_digit_not_special(1) [OF c] by simp
  have sign: "strip_sign s = (1, s)"
    using s hex_digit_not_special(2,3) [OF c] by (simp add: strip_sign_def)
  have prefix: "strip_0x s = s"
  proof (cases cs)
    case Nil
    then show ?thesis using s by (simp add: strip_0x_def)
  next
    case (Cons x r)
    then have "hex_digit x" using assms(2) s by simp
    then show ?thesis
      using s Cons hex_digit_not_special(5,6) [of x] by (simp add: strip_0x_def)
  qed
  have "hex_digit (last s)" using assms by simp
  then have "\<not> is_space (hd (rev s))"
    using assms(1) hex_digit_not_special(1) by (simp add: hd_rev)
  then have "dropWhile is_space (rev s) = rev s"
    using assms(1) by (cases "rev s") auto
  then have trail: "rev (dropWhile is_space (rev s)) = s" by simp
  show ?thesis
    unfolding py_int16_def lead sign
    by (simp add: prefix trail parse_hex_plain [OF assms])
qed

lemma below_16_cases:
  assumes "(d::nat) < 16"
  shows "d = 0 \<or> d = 1 \<or> d = 2 \<or> d = 3 \<or> d = 4 \<or> d = 5 \<or> d = 6 \<or> d = 7 \<or> d = 8 \<or> d = 9 \<or>
         d = 10 \<or> d = 11 \<or> d = 12 \<or> d = 13 \<or> d = 14 \<or> d = 15"
  using assms by arith

lemma hex_value_hex_char:
  assumes "d < 16"
  shows "hex_value (hex_char d) = Some d"
  using below_16_cases [OF assms]
  by (elim disjE) (simp_all add: hex_char_def hex_value_def)

lemma hex_digit_hex_char: "d < 16 \<Longrightarrow> hex_digit (hex_char d)"
  by (simp add: hex_digit_def hex_value_hex_char)

lemma hex_digits_digits: "\<forall>c \<in> set (hex_digits n). hex_digit c"
proof (induction n rule: hex_digits.induct)
  case (1 n)
  show ?case
  proof (cases "n < 16")
    case True
    then show ?thesis
      by (subst hex_digits.simps) (simp add: hex_digit_hex_char)
  next
    case False
    then show ?thesis
      using "1.IH" by (subst hex_digits.simps) (simp add: hex_digit_hex_char)
  qed
qed

lemma hex_digits_value:
  "foldl (\<lambda>a c. 16 * a + the (hex_value c)) acc (hex_digits n) =
     acc * 16 ^ length (hex_digits n) + n"
proof (induction n arbitrary: acc rule: hex_digits.induct)
  case (1 n)
  show ?case
  proof (cases "n < 16")
    case True
    then show ?thesis
      by (subst (1 2) hex_digits.simps) (simp add: hex_value_hex_char)
  next
    case False
    have unfold: "hex_digits n = hex_digits (n div 16) @ [hex_char (n mod 16)]"
      using False by (subst hex_digits.simps) simp
    show ?thesis
      unfolding unfold using "1.IH" [OF False, of acc]
      by (simp add: hex_value_hex_char algebra_simps)
  qed
qed

lemma hex_digits_length:
  assumes "n < 16 ^ k" and "0 < k"
  shows "length (hex_digits n) \<le> k"
  using assms
proof (induction n arbitrary: k rule: hex_digits.induct)
  case (1 n)
  show ?case
  proof (cases "n < 16")
    case True
    then show ?thesis
      using "1.prems"(2) by (subst hex_digits.simps) simp
  next
    case False
    obtain j where k: "k = Suc j" using "1.prems"(2) by (cases k) auto
    have "0 < j"
    proof (rule ccontr)
      assume "\<not> 0 < j"
      then have "k = 1" using k by simp
      then show False using "1.prems"(1) False by simp
    qed
    moreover have "n div 16 < 16 ^ j"
      using "1.prems"(1) k by (simp add: less_mult_imp_div_less mult.commute)
    ultimately have "length (hex_digits (n div 16)) \<le> j"
      using "1.IH" [OF False] by blast
    then show ?thesis
      using False k by (subst hex_digits.simps) simp
  qed
qed

lemma foldl_zeros:
  "foldl (\<lambda>a c. 16 * a + the (hex_value c)) 0 (replicate k (CHR ''0'')) = 0"
  by (induction k) (simp_all add: hex_value_def)

lemma hex_string_value_zfill:
  "hex_string_value (zfill w (hex_digits n)) = n"
  by (simp add: hex_string_value_def zfill_def foldl_zeros hex_digits_value)

lemma hex_digit_zero: "hex_digit (CHR ''0'')"
  by (simp add: hex_digit_def hex_value_def)

lemma zfill_digits: "\<forall>c \<in> set (zfill w (hex_digits n)). hex_digit c"
  using hex_digits_digits [of n]
  by (auto simp: zfill_def hex_digit_zero)

lemma hex_digits_nonempty: "hex_digits n \<noteq> []"
  by (subst hex_digits.simps) simp

lemma length_zfill:
  assumes "n < 16 ^ 8"
  shows "length (zfill 8 (hex_digits n)) = 8"
  using hex_digits_length [OF assms] by (simp add: zfill_def)

lemma split_percent_08x:
  assumes "0 \<le> n" and "n < 2 ^ 32"
  shows "split_fingerprint (percent_08x n @ d) = Inr (n, d)"
proof -
  let ?s = "zfill 8 (hex_digits (nat n))"
  have small: "nat n < 16 ^ 8" using assms by simp
  have fmt: "percent_08x n = ?s" using assms(1) by (simp add: percent_08x_def)
  have len: "length ?s = 8" by (rule length_zfill [OF small])
  then have ne: "?s \<noteq> []" by auto
  have "py_int16 ?s = Inr (int (hex_string_value ?s))"
    by (rule py_int16_plain [OF ne zfill_digits])
  then have "py_int16 ?s = Inr n"
    using assms(1) by (simp add: hex_string_value_zfill)
  then show ?thesis
    unfolding split_fingerprint_def fmt using len by simp
qed

text \<open>
  Claim C3. For \<open>0 \<le> n < 2\<^sup>3\<^sup>2\<close> and any digest \<open>d\<close> (so for every digest of 32 hexadecimal
  digits), decoding the fingerprint that \<^verbatim>\<open>_create_directory_fingerprint\<close> builds, the
  format \<^verbatim>\<open>'%08x' % n\<close> followed by \<open>d\<close>, returns the pair \<open>(n, d)\<close>.
\<close>

theorem split_fingerprint_roundtrip:
  assumes "0 \<le> n" and "n < 2 ^ 32"
  shows "split_fingerprint (percent_08x n @ d) = Inr (n, d)"
  using assms by (rule split_percent_08x)

theorem split_fingerprint_roundtrip_witness:
  "percent_08x 2 = ''00000002'' \<and>
   split_fingerprint (''00000002'' @ ''00112233445566778899aabbccddeeff'') =
     Inr (2, ''00112233445566778899aabbccddeeff'')"
proof -
  have digits: "hex_digits 2 = ''2''"
    by (simp add: hex_digits.simps [of 2] hex_char_def)
  have zeros: "replicate 7 (CHR ''0'') = ''0000000''"
    by (simp add: eval_nat_numeral)
  have fmt: "percent_08x 2 = ''00000002''"
    by (simp add: percent_08x_def zfill_def digits zeros)
  show ?thesis
    using split_fingerprint_roundtrip [of 2 "''00112233445566778899aabbccddeeff''"]
    unfolding fmt by simp
qed


lemma hex_value_lower:
  assumes "hex_value c = Some v"
  shows "v < 16 \<and> hex_char v = ascii_lower_char c \<and> is_ascii c"
  using assms
  by (auto simp: hex_value_def hex_char_def ascii_lower_char_def is_ascii_def split: if_splits)

lemma byte_nibbles:
  assumes "hi < 16" and "lo < 16"
  shows "unat (of_nat (16 * hi + lo) :: byte) div 16 = hi"
    and "unat (of_nat (16 * hi + lo) :: byte) mod 16 = lo"
proof -
  have "16 * hi + lo < 256" using assms by arith
  then have "unat (of_nat (16 * hi + lo) :: byte) = 16 * hi + lo"
    by (simp only: unat_of_nat) simp
  then show "unat (of_nat (16 * hi + lo) :: byte) div 16 = hi"
    and "unat (of_nat (16 * hi + lo) :: byte) mod 16 = lo"
    using assms by simp_all
qed

lemma unhexlify_pairs_ok:
  assumes "even (length s)" and "list_all hex_digit s"
  shows "\<exists>bs. unhexlify_pairs s = Inr bs \<and> 2 * length bs = length s \<and>
           hexlify bs = ascii_lower s"
  using assms
proof (induction s rule: unhexlify_pairs.induct)
  case 1
  then show ?case by (simp add: hexlify_def ascii_lower_def)
next
  case (2 c)
  then show ?case by simp
next
  case (3 a b rest)
  from "3.prems" obtain hi lo where hi: "hex_value a = Some hi" and lo: "hex_value b = Some lo"
    by (auto simp: hex_digit_def)
  have "even (length rest)" and "list_all hex_digit rest"
    using "3.prems" by simp_all
  from "3.IH" [OF refl hi lo this] obtain bs where
    bs: "unhexlify_pairs rest = Inr bs" "2 * length bs = length rest" "hexlify bs = ascii_lower rest"
    by auto
  have "hexlify (of_nat (16 * hi + lo) # bs) = ascii_lower (a # b # rest)"
    using bs(3) hex_value_lower [OF hi] hex_value_lower [OF lo]
    by (simp add: hexlify_def ascii_lower_def byte_nibbles del: of_nat_add of_nat_mult)
  then show ?case
    using hi lo bs by simp
qed

lemma unhexlify_pairs_bad:
  assumes "\<not> list_all hex_digit s"
  shows "unhexlify_pairs s = Inl BinasciiError"
  using assms
proof (induction s rule: unhexlify_pairs.induct)
  case 1
  then show ?case by simp
next
  case (2 c)
  then show ?case by simp
next
  case (3 a b rest)
  show ?case
  proof (cases "hex_digit a \<and> hex_digit b")
    case True
    then obtain hi lo where "hex_value a = Some hi" "hex_value b = Some lo"
      by (auto simp: hex_digit_def)
    moreover from True "3.prems" have "\<not> list_all hex_digit rest" by simp
    ultimately show ?thesis using "3.IH" by simp
  next
    case False
    then show ?thesis by (auto simp: hex_digit_def split: option.splits)
  qed
qed

lemma hex_digit_ascii: "hex_digit c \<Longrightarrow> is_ascii c"
  using hex_value_lower by (auto simp: hex_digit_def)

lemma unhexlify_ok:
  assumes "hex_chunk s"
  shows "\<exists>bs. unhexlify s = Inr bs \<and> 2 * length bs = length s \<and> hexlify bs = ascii_lower s"
proof -
  have "list_all is_ascii s"
    using assms by (auto simp: hex_chunk_def list_all_iff hex_digit_ascii)
  then show ?thesis
    using assms unhexlify_pairs_ok [of s] by (simp add: unhexlify_def hex_chunk_def)
qed

lemma unhexlify_bad:
  assumes "\<not> hex_chunk s"
  shows "\<exists>e. unhexlify s = Inl e"
  using assms unhexlify_pairs_bad [of s]
  by (auto simp: unhexlify_def hex_chunk_def)

lemma unhexlify_Inl_iff: "(\<exists>e. unhexlify s = Inl e) \<longleftrightarrow> \<not> hex_chunk s"
  using unhexlify_ok [of s] unhexlify_bad [of s] by auto

text \<open>
  Claim C4 (as amended). \<^verbatim>\<open>create_halohash_chunks\<close> reads the first 32 characters only:
  it fails with a decoding error exactly when one of the four slices \<^verbatim>\<open>[0:8]\<close>,
  \<^verbatim>\<open>[8:16]\<close>, \<^verbatim>\<open>[16:24]\<close>, \<^verbatim>\<open>[24:32]\<close> has an odd length or holds a character that is not a
  hexadecimal digit. For a digest of exactly 32 hexadecimal digits it returns four buffers of
  four bytes each, and the hexadecimal encoding of their concatenation is the digest in
  lowercase.
\<close>

theorem create_halohash_chunks_spec:
  "((\<exists>e. create_halohash_chunks s = Inl e) \<longleftrightarrow>
      \<not> (hex_chunk (slice 0 8 s) \<and> hex_chunk (slice 8 16 s) \<and>
         hex_chunk (slice 16 24 s) \<and> hex_chunk (slice 24 32 s))) \<and>
   (length s = 32 \<and> list_all hex_digit s \<longrightarrow>
      (\<exists>c1 c2 c3 c4. create_halohash_chunks s = Inr (c1, c2, c3, c4) \<and>
         length c1 = 4 \<and> length c2 = 4 \<and> length c3 = 4 \<and> length c4 = 4 \<and>
         hexlify (c1 @ c2 @ c3 @ c4) = ascii_lower s))"
proof
  show "(\<exists>e. create_halohash_chunks s = Inl e) \<longleftrightarrow>
      \<not> (hex_chunk (slice 0 8 s) \<and> hex_chunk (slice 8 16 s) \<and>
         hex_chunk (slice 16 24 s) \<and> hex_chunk (slice 24 32 s))"
    using unhexlify_Inl_iff [of "slice 0 8 s"] unhexlify_Inl_iff [of "slice 8 16 s"]
      unhexlify_Inl_iff [of "slice 16 24 s"] unhexlify_Inl_iff [of "slice 24 32 s"]
    unfolding create_halohash_chunks_def hexstring_to_binarray_def Let_def
    by (auto split: sum.splits)
  show "length s = 32 \<and> list_all hex_digit s \<longrightarrow>
      (\<exists>c1 c2 c3 c4. create_halohash_chunks s = Inr (c1, c2, c3, c4) \<and>
         length c1 = 4 \<and> length c2 = 4 \<and> length c3 = 4 \<and> length c4 = 4 \<and>
         hexlify (c1 @ c2 @ c3 @ c4) = ascii_lower s)"
  proof
    assume a: "length s = 32 \<and> list_all hex_digit s"
    have chunk: "hex_chunk (slice i j s)" if "j = i + 8" and "j \<le> 32" for i j
      using a that by (auto simp: hex_chunk_def slice_def list_all_iff dest: in_set_takeD in_set_dropD)
    have len: "length (slice i j s) = 8" if "j = i + 8" and "j \<le> 32" for i j
      using a that by (simp add: slice_def)
    from unhexlify_ok [OF chunk [of 8 0]] len [of 8 0] obtain c1 where
      c1: "unhexlify (slice 0 8 s) = Inr c1" "length c1 = 4" "hexlify c1 = ascii_lower (slice 0 8 s)"
      by auto
    from unhexlify_ok [OF chunk [of 16 8]] len [of 16 8] obtain c2 where
      c2: "unhexlify (slice 8 16 s) = Inr c2" "length c2 = 4" "hexlify c2 = ascii_lower (slice 8 16 s)"
      by auto
    from unhexlify_ok [OF chunk [of 24 16]] len [of 24 16] obtain c3 where
      c3: "unhexlify (slice 16 24 s) = Inr c3" "length c3 = 4" "hexlify c3 = ascii_lower (slice 16 24 s)"
      by auto
    from unhexlify_ok [OF chunk [of 32 24]] len [of 32 24] obtain c4 where
      c4: "unhexlify (slice 24 32 s) = Inr c4" "length c4 = 4" "hexlify c4 = ascii_lower (slice 24 32 s)"
      by auto
    have "take 8 (drop 24 s) = drop 24 s" using a by simp
    moreover have "take 8 (drop 16 s) @ drop 24 s = drop 16 s"
      using append_take_drop_id [of 8 "drop 16 s"] by simp
    moreover have "take 8 (drop 8 s) @ drop 16 s = drop 8 s"
      using append_take_drop_id [of 8 "drop 8 s"] by simp
    moreover have "take 8 s @ drop 8 s = s" by simp
    ultimately have split: "slice 0 8 s @ slice 8 16 s @ slice 16 24 s @ slice 24 32 s = s"
      by (simp add: slice_def)
    have "hexlify (c1 @ c2 @ c3 @ c4) =
        ascii_lower (slice 0 8 s @ slice 8 16 s @ slice 16 24 s @ slice 24 32 s)"
      using c1(3) c2(3) c3(3) c4(3) by (simp add: hexlify_def ascii_lower_def)
    then have hex: "hexlify (c1 @ c2 @ c3 @ c4) = ascii_lower s"
      by (simp only: split)
    show "\<exists>c1 c2 c3 c4. create_halohash_chunks s = Inr (c1, c2, c3, c4) \<and>
         length c1 = 4 \<and> length c2 = 4 \<and> length c3 = 4 \<and> length c4 = 4 \<and>
         hexlify (c1 @ c2 @ c3 @ c4) = ascii_lower s"
      using c1 c2 c3 c4 hex
      by (simp add: create_halohash_chunks_def hexstring_to_binarray_def)
  qed
qed

theorem create_halohash_chunks_spec_witness:
  "\<exists>c1 c2 c3 c4. create_halohash_chunks ''00112233445566778899aabbccddeeff'' =
       Inr (c1, c2, c3, c4) \<and>
     length c1 = 4 \<and> length c2 = 4 \<and> length c3 = 4 \<and> length c4 = 4 \<and>
     hexlify (c1 @ c2 @ c3 @ c4) = ''00112233445566778899aabbccddeeff''"
  using create_halohash_chunks_spec [of "''00112233445566778899aabbccddeeff''"]
  by (simp add: hex_digit_def hex_value_def ascii_lower_def ascii_lower_char_def)

text \<open>
  A string of 40 hexadecimal digits (a whole directory fingerprint) is cut to its first 32
  characters without an error, and the empty string gives four empty buffers.
\<close>

theorem create_halohash_chunks_truncates:
  "create_halohash_chunks ''0000000000000000000000000000000000000000'' =
     Inr ([0, 0, 0, 0], [0, 0, 0, 0], [0, 0, 0, 0], [0, 0, 0, 0]) \<and>
   create_halohash_chunks '''' = Inr ([], [], [], [])"
  by (simp add: create_halohash_chunks_def hexstring_to_binarray_def unhexlify_def slice_def
      is_ascii_def hex_value_def)

section \<open>Properties of the tokenizer\<close>

lemma findall_Nil_iff: "findall cls s = [] \<longleftrightarrow> list_all (\<lambda>c. \<not> cls c) s"
  by (induction cls s rule: findall.induct) auto

lemma findall_runs:
  "\<exists>seps. length seps = Suc (length (findall cls s)) \<and>
          weave seps (findall cls s) = s \<and>
          separator_runs cls seps \<and>
          hd seps = takeWhile (\<lambda>c. \<not> cls c) s"
proof (induction cls s rule: findall.induct)
  case (1 cls)
  have "length [[]] = Suc (length (findall cls [])) \<and> weave [[]] (findall cls []) = [] \<and>
        separator_runs cls [[]] \<and> hd [[]] = takeWhile (\<lambda>c. \<not> cls c) []"
    by (simp add: separator_runs_def)
  then show ?case by blast
next
  case (2 cls c cs)
  show ?case
  proof (cases "cls c")
    case True
    let ?rest = "dropWhile cls cs"
    from "2.IH"(1) [OF True] obtain seps where
      seps: "length seps = Suc (length (findall cls ?rest))"
        "weave seps (findall cls ?rest) = ?rest"
        "separator_runs cls seps"
        "hd seps = takeWhile (\<lambda>c. \<not> cls c) ?rest"
      by blast
    from seps(1) obtain s0 more where sm: "seps = s0 # more" by (cases seps) auto
    have first: "findall cls ?rest \<noteq> [] \<Longrightarrow> s0 \<noteq> []"
    proof -
      assume some: "findall cls ?rest \<noteq> []"
      have "?rest \<noteq> []"
      proof
        assume "?rest = []"
        then have "findall cls ?rest = []" by (simp only: findall.simps)
        with some show False by simp
      qed
      then have "\<not> cls (hd ?rest)" by (rule hd_dropWhile)
      then have "takeWhile (\<lambda>c. \<not> cls c) ?rest \<noteq> []"
        using \<open>?rest \<noteq> []\<close> by (cases ?rest) auto
      then show "s0 \<noteq> []" using seps(4) sm by simp
    qed
    have inner: "list_all (\<lambda>s. s \<noteq> []) (butlast seps)"
    proof (cases "findall cls ?rest = []")
      case True
      then have "more = []" using seps(1) sm by simp
      then show ?thesis using sm by simp
    next
      case False
      then have "more \<noteq> []" using seps(1) sm by auto
      then show ?thesis
        using first [OF False] seps(3) sm by (simp add: separator_runs_def)
    qed
    have "length ([] # seps) = Suc (length (findall cls (c # cs))) \<and>
          weave ([] # seps) (findall cls (c # cs)) = c # cs \<and>
          separator_runs cls ([] # seps) \<and>
          hd ([] # seps) = takeWhile (\<lambda>c. \<not> cls c) (c # cs)"
      using True seps inner by (simp add: separator_runs_def)
    then show ?thesis by blast
  next
    case False
    from "2.IH"(2) [OF False] obtain seps where
      seps: "length seps = Suc (length (findall cls cs))"
        "weave seps (findall cls cs) = cs"
        "separator_runs cls seps"
        "hd seps = takeWhile (\<lambda>c. \<not> cls c) cs"
      by blast
    from seps(1) obtain s0 more where sm: "seps = s0 # more" by (cases seps) auto
    have w: "weave ((c # s0) # more) ts = c # weave (s0 # more) ts" for ts
      by (cases ts) simp_all
    have wv: "weave ((c # s0) # more) (findall cls cs) = c # cs"
      using w [of "findall cls cs"] seps(2) sm by simp
    have "length ((c # s0) # more) = Suc (length (findall cls (c # cs))) \<and>
          weave ((c # s0) # more) (findall cls (c # cs)) = c # cs \<and>
          separator_runs cls ((c # s0) # more) \<and>
          hd ((c # s0) # more) = takeWhile (\<lambda>c. \<not> cls c) (c # cs)"
      using False seps(1,3,4) sm wv by (simp add: separator_runs_def)
    then show ?thesis by blast
  qed
qed

lemma findall_words: "word_tokens cls (findall cls s)"
proof (induction cls s rule: findall.induct)
  case (1 cls)
  then show ?case by (simp add: word_tokens_def)
next
  case (2 cls c cs)
  have "list_all cls (takeWhile cls cs)"
    by (simp add: list_all_iff) (meson set_takeWhileD)
  then show ?case
    using 2 by (auto simp: word_tokens_def)
qed

lemma tokenizer'_findall: "tokenizer' w (Some t) = findall (query_class w) t"
proof -
  have "filter (\<lambda>token. token \<noteq> []) (findall cls s) = findall cls s" for cls s
    using findall_words [of cls s] by (simp add: word_tokens_def list_all_iff filter_id_conv)
  then show ?thesis
    by (cases t) (simp_all add: tokenizer'_def word_splitter_def)
qed

text \<open>
  For the empty text \<^verbatim>\<open>tokenizer\<close> returns no token. For every text it returns exactly the
  maximal runs, from left to right, of the characters of the class \<^verbatim>\<open>[^_\W]\<close> in the
  lowercased text: the lowercased text is the tokens woven with separators that hold no
  character of the class. The text of the docstring gives the eight tokens of the docstring.
\<close>

theorem tokenizer_maximal_runs:
  "(lower [] = [] \<longrightarrow> tokenizer lower w (Some []) = Inr []) \<and>
   (\<exists>toks seps. tokenizer lower w (Some t) = Inr toks \<and>
      length seps = Suc (length toks) \<and> weave seps toks = lower t \<and>
      separator_runs (query_class w) seps \<and> word_tokens (query_class w) toks) \<and>
   tokenizer ascii_lower ascii_w
      (Some ''{{Hi}}some {{}}Text with{{noth+-_!@ing}}   {{junk}}spAces! + _ -{{}}'') =
     Inr [''hi'', ''some'', ''text'', ''with'', ''noth'', ''ing'', ''junk'', ''spaces'']"
proof (intro conjI)
  show "lower [] = [] \<longrightarrow> tokenizer lower w (Some []) = Inr []"
    by (simp add: tokenizer_def tokenizer'_def)
  from findall_runs [of "query_class w" "lower t"] obtain seps where
    "length seps = Suc (length (findall (query_class w) (lower t)))"
    "weave seps (findall (query_class w) (lower t)) = lower t"
    "separator_runs (query_class w) seps"
    by blast
  then show "\<exists>toks seps. tokenizer lower w (Some t) = Inr toks \<and>
      length seps = Suc (length toks) \<and> weave seps toks = lower t \<and>
      separator_runs (query_class w) seps \<and> word_tokens (query_class w) toks"
    using findall_words [of "query_class w" "lower t"]
    by (auto simp: tokenizer_def tokenizer'_findall)
  show "tokenizer ascii_lower ascii_w
      (Some ''{{Hi}}some {{}}Text with{{noth+-_!@ing}}   {{junk}}spAces! + _ -{{}}'') =
     Inr [''hi'', ''some'', ''text'', ''with'', ''noth'', ''ing'', ''junk'', ''spaces'']"
    by (simp add: tokenizer_def tokenizer'_def word_splitter_def query_class_def
        ascii_lower_def ascii_lower_char_def ascii_w_def)
qed

theorem tokenizer_maximal_runs_witness:
  "tokenizer ascii_lower ascii_w (Some []) = Inr [] \<and>
   (\<exists>toks seps. tokenizer ascii_lower ascii_w (Some ''Ab_c'') = Inr toks \<and>
      length seps = Suc (length toks) \<and> weave seps toks = ''ab_c'' \<and>
      separator_runs (query_class ascii_w) seps \<and> word_tokens (query_class ascii_w) toks)"
  using tokenizer_maximal_runs [of ascii_lower ascii_w "''Ab_c''"]
  by (simp add: ascii_lower_def ascii_lower_char_def)

text \<open>
  Claim C5 at the input \<^verbatim>\<open>None\<close>: \<^verbatim>\<open>_tokenizer\<close> returns no token for \<^verbatim>\<open>None\<close>, as the
  claim says of \<^verbatim>\<open>tokenizer\<close>, but \<^verbatim>\<open>tokenizer\<close> calls \<^verbatim>\<open>text.lower()\<close> first, which
  raises \<^verbatim>\<open>AttributeError\<close> before \<^verbatim>\<open>_tokenizer\<close> is reached.
\<close>

theorem tokenizer_None_raises:
  "tokenizer lower w None = Inl AttributeError \<and> tokenizer' w None = []"
  by (simp add: tokenizer_def tokenizer'_def)

section \<open>Properties of the directory fingerprints\<close>

text \<open>
  Claim C6. When at most one of the resources that \<^verbatim>\<open>walk\<close> yields for the directory is a
  file of non-zero size, \<^verbatim>\<open>_compute_directory_fingerprints\<close> returns \<^verbatim>\<open>None\<close> and leaves
  the directory object as it was, so neither fingerprint is assigned, in an attribute or in
  \<^verbatim>\<open>extra_data\<close>; the codebase is as it was too, whatever \<^verbatim>\<open>save\<close> does, so \<^verbatim>\<open>save\<close> was
  not called.
\<close>

theorem skip_rule:
  assumes "length (filter nonempty_file (walk directory codebase)) \<le> 1"
  shows "compute_directory_fingerprints' walk save bah directory codebase =
           (Inr None, directory, codebase)"
  using assms by (simp add: compute_directory_fingerprints'_def)

text \<open>Here \<^verbatim>\<open>save\<close> appends the saved resource to a log, which stays empty.\<close>

theorem skip_rule_witness:
  "compute_directory_fingerprints' (\<lambda>d cb. [file_a]) (\<lambda>r cb. r # cb) zero_hash dir_d [] =
     (Inr None, dir_d, [])"
  using skip_rule [of "\<lambda>d cb. [file_a]" dir_d "[]" "\<lambda>r cb. r # cb" zero_hash]
  by simp

lemma sha1_features_nonempty: "[] \<notin> set (sha1_features rs)"
  by (induction rs) (auto simp: sha1_features_def split: option.splits)

lemma length_sha1_features: "length (sha1_features rs) = length (filter has_sha1 rs)"
  by (induction rs) (auto simp: sha1_features_def has_sha1_def split: option.splits)

lemma split_create_directory_fingerprint:
  assumes "length (filter (\<lambda>i. i \<noteq> []) inputs) < 2 ^ 32"
  shows "split_fingerprint (create_directory_fingerprint' bah inputs) =
           Inr (int (length (filter (\<lambda>i. i \<noteq> []) inputs)),
                bah (Some 128) (map encode_utf8 (filter (\<lambda>i. i \<noteq> []) inputs)))"
proof -
  have "int (length (filter (\<lambda>i. i \<noteq> []) inputs)) < 2 ^ 32"
    using assms by (metis of_nat_less_iff of_nat_numeral of_nat_power)
  then show ?thesis
    unfolding create_directory_fingerprint'_def Let_def
    by (simp add: split_percent_08x)
qed

lemma decode_content_fingerprint:
  assumes "length (filter has_sha1 rs) < 2 ^ 32"
  shows "py_int16 (take 8 (create_content_fingerprint bah rs)) =
           Inr (int (length (filter has_sha1 rs)))"
proof -
  have keep: "filter (\<lambda>i. i \<noteq> []) (sha1_features rs) = sha1_features rs"
    using sha1_features_nonempty [of rs] by (simp add: filter_id_conv) metis
  have "split_fingerprint (create_content_fingerprint bah rs) =
      Inr (int (length (sha1_features rs)), bah (Some 128) (map encode_utf8 (sha1_features rs)))"
    using split_create_directory_fingerprint [of "sha1_features rs" bah] assms
    by (simp add: create_content_fingerprint_def keep length_sha1_features)
  then show ?thesis
    by (auto simp: split_fingerprint_def length_sha1_features split: sum.splits)
qed

lemma content_after_structure:
  "content_fingerprint_of (set_structure_fingerprint fp (set_content_fingerprint cfp d)) = Some cfp"
  by (simp add: content_fingerprint_of_def set_structure_fingerprint_def
      set_content_fingerprint_def split: attribute.splits)

lemma content_after_content:
  "content_fingerprint_of (set_content_fingerprint cfp d) = Some cfp"
  by (simp add: content_fingerprint_of_def set_content_fingerprint_def split: attribute.splits)

lemma content_fingerprint_stored:
  assumes "2 \<le> length (filter nonempty_file (walk directory codebase))"
  shows "content_fingerprint_of
      (fst (snd (compute_directory_fingerprints' walk save bah directory codebase))) =
     Some (create_content_fingerprint bah (filter nonempty_file (walk directory codebase)))"
proof -
  have "\<not> length (filter nonempty_file (walk directory codebase)) \<le> 1" using assms by simp
  then show ?thesis
    by (auto simp: compute_directory_fingerprints'_def Let_def content_after_structure
        content_after_content split: sum.splits)
qed

text \<open>
  Claim C7 (as amended). When \<^verbatim>\<open>walk\<close> yields at least two files of non-zero size for the
  directory, and fewer than \<open>2\<^sup>3\<^sup>2\<close> of them have a non-empty \<^verbatim>\<open>sha1\<close>, the directory
  object holds after the call the content fingerprint of these files, and the first eight
  characters of that fingerprint decode to the number of them that have a non-empty
  \<^verbatim>\<open>sha1\<close>.
\<close>

theorem content_fingerprint_count:
  assumes "2 \<le> length (filter nonempty_file (walk directory codebase))"
    and "length (filter has_sha1 (filter nonempty_file (walk directory codebase))) < 2 ^ 32"
  shows "\<exists>fp. content_fingerprint_of
                (fst (snd (compute_directory_fingerprints' walk save bah directory codebase))) =
              Some fp \<and>
           fp = create_content_fingerprint bah (filter nonempty_file (walk directory codebase)) \<and>
           py_int16 (take 8 fp) =
             Inr (int (length (filter has_sha1 (filter nonempty_file (walk directory codebase)))))"
proof -
  show ?thesis
    using content_fingerprint_stored [of walk directory codebase save bah] assms(1)
      decode_content_fingerprint [OF assms(2), of bah]
    by simp
qed

text \<open>Two files of sizes 15 and 27 with the content hashes \<^verbatim>\<open>A\<close> and \<^verbatim>\<open>B\<close>: the count is 2.\<close>

theorem content_fingerprint_count_witness:
  "\<exists>fp. content_fingerprint_of
          (fst (snd (compute_directory_fingerprints' (\<lambda>d cb. [file_a, file_b]) (\<lambda>r cb. r # cb)
             zero_hash dir_d [])))
        = Some fp \<and> py_int16 (take 8 fp) = Inr 2"
  using content_fingerprint_count
    [of "\<lambda>d cb. [file_a, file_b]" dir_d "[]" "\<lambda>r cb. r # cb" zero_hash]
  by (simp add: nonempty_file_def has_sha1_def file_a_def file_b_def)

lemma sha1_features_map:
  assumes "\<And>x. sha1 (f x) = Some h" and "h \<noteq> []"
  shows "sha1_features (map f xs) = replicate (length xs) h"
  using assms by (induction xs) (simp_all add: sha1_features_def)

lemma many_files_nonempty: "filter nonempty_file (many_files n) = many_files n"
  by (simp add: many_files_def filter_map o_def nonempty_file_def numbered_file_def file_a_def)

lemma many_files_sha1: "filter has_sha1 (many_files n) = many_files n"
  by (simp add: many_files_def filter_map o_def has_sha1_def numbered_file_def file_a_def)

lemma length_many_files: "length (many_files n) = n"
  by (simp add: many_files_def)

lemma hex_digits_2_32: "hex_digits 4294967296 = ''100000000''"
  by (simp add: hex_digits.simps [of 4294967296] hex_digits.simps [of 268435456]
      hex_digits.simps [of 16777216] hex_digits.simps [of 1048576] hex_digits.simps [of 65536]
      hex_digits.simps [of 4096] hex_digits.simps [of 256] hex_digits.simps [of 16]
      hex_digits.simps [of "Suc 0"] hex_char_def)

lemma take_fingerprint_many:
  "take 8 (create_content_fingerprint zero_hash (many_files 4294967296)) = ''10000000''"
proof -
  have feats: "sha1_features (many_files 4294967296) = replicate 4294967296 ''A''"
    unfolding many_files_def
    using sha1_features_map [of numbered_file "''A''" "[0 ..< 4294967296]"]
    by (simp add: numbered_file_def file_a_def del: upt.simps upt_rec_numeral)
  have fmt: "percent_08x 4294967296 = ''100000000''"
    by (simp add: percent_08x_def zfill_def hex_digits_2_32)
  show ?thesis
    by (simp add: create_content_fingerprint_def create_directory_fingerprint'_def Let_def
        feats fmt)
qed

text \<open>
  With \<open>2\<^sup>3\<^sup>2\<close> files that have a content hash, the count takes nine hexadecimal digits,
  and the first eight characters of the fingerprint decode to \<open>2\<^sup>2\<^sup>8\<close>.
\<close>

theorem content_fingerprint_count_overflow:
  "length (filter has_sha1 (filter nonempty_file (many_files 4294967296))) = 4294967296 \<and>
   map_option (\<lambda>fp. py_int16 (take 8 fp))
     (content_fingerprint_of
        (fst (snd (compute_directory_fingerprints' (\<lambda>d cb. many_files 4294967296)
           (\<lambda>r cb. r # cb) zero_hash dir_d [])))) =
     Some (Inr 268435456)"
proof
  show "length (filter has_sha1 (filter nonempty_file (many_files 4294967296))) = 4294967296"
    by (simp only: many_files_nonempty many_files_sha1 length_many_files)
  have decode: "py_int16 ''10000000'' = Inr 268435456"
    using py_int16_plain [of "''10000000''"]
    by (simp add: hex_digit_def hex_value_def hex_string_value_def)
  have "2 \<le> length (filter nonempty_file (many_files 4294967296))"
    by (simp only: many_files_nonempty length_many_files)
  then have "content_fingerprint_of
        (fst (snd (compute_directory_fingerprints' (\<lambda>d cb. many_files 4294967296)
           (\<lambda>r cb. r # cb) zero_hash dir_d []))) =
      Some (create_content_fingerprint zero_hash (many_files 4294967296))"
    using content_fingerprint_stored
      [of "\<lambda>d cb. many_files 4294967296" dir_d "[]" "\<lambda>r cb. r # cb" zero_hash]
    by (simp only: many_files_nonempty)
  then show "map_option (\<lambda>fp. py_int16 (take 8 fp))
     (content_fingerprint_of
        (fst (snd (compute_directory_fingerprints' (\<lambda>d cb. many_files 4294967296)
           (\<lambda>r cb. r # cb) zero_hash dir_d [])))) =
     Some (Inr 268435456)"
    by (simp only: option.map take_fingerprint_many decode)
qed

section \<open>Properties of the file fingerprint pipeline\<close>

lemma ngrams_Nil: "0 < n \<Longrightarrow> ngrams [] n = []"
  by (cases n) (simp_all add: ngrams_def)

lemma ngrams_short: "length xs < n \<Longrightarrow> ngrams xs n = []"
  by (simp add: ngrams_def)

text \<open>
  Claim C9. When the location is not a regular file, or its content is not text, the result
  is the empty mapping. For a text file that is read and whose tokens give no n-gram of
  eight tokens, the result maps \<^verbatim>\<open>halo1\<close> to the empty string and \<^verbatim>\<open>chunks_halo1\<close> to
  the empty list; fewer than eight tokens give no n-gram.
\<close>

theorem file_hashes_guards:
  "(\<not> is_regular_file loc \<or> \<not> is_text loc \<longrightarrow>
      get_file_fingerprint_hashes lower w bah loc = Inr Map.empty) \<and>
   (is_regular_file loc \<and> is_text loc \<and> content loc = Inr txt \<and>
    tokenizer lower w (Some txt) = Inr toks \<and> ngrams toks 8 = [] \<longrightarrow>
      get_file_fingerprint_hashes lower w bah loc =
        Inr [''halo1'' \<mapsto> Digest [], ''chunks_halo1'' \<mapsto> Digests []]) \<and>
   (length toks < 8 \<longrightarrow> ngrams toks 8 = [])"
  by (auto simp: get_file_fingerprint_hashes_def Let_def ngrams_Nil ngrams_short
      select_windows_def)

theorem file_hashes_guards_witness:
  "get_file_fingerprint_hashes ascii_lower ascii_w zero_hash
      \<lparr>is_regular_file = False, is_text = True, content = Inr ''one two three''\<rparr> = Inr Map.empty \<and>
   get_file_fingerprint_hashes ascii_lower ascii_w zero_hash
      \<lparr>is_regular_file = True, is_text = True, content = Inr ''one two three''\<rparr> =
     Inr [''halo1'' \<mapsto> Digest [], ''chunks_halo1'' \<mapsto> Digests []]"
proof -
  have toks: "tokenizer ascii_lower ascii_w (Some ''one two three'') =
      Inr [''one'', ''two'', ''three'']"
    by (simp add: tokenizer_def tokenizer'_def word_splitter_def query_class_def
        ascii_lower_def ascii_lower_char_def ascii_w_def)
  show ?thesis
    using
      file_hashes_guards
        [of "\<lparr>is_regular_file = False, is_text = True, content = Inr ''one two three''\<rparr>"
          ascii_lower ascii_w zero_hash "''one two three''" "[''one'', ''two'', ''three'']"]
      file_hashes_guards
        [of "\<lparr>is_regular_file = True, is_text = True, content = Inr ''one two three''\<rparr>"
          ascii_lower ascii_w zero_hash "''one two three''" "[''one'', ''two'', ''three'']"]
      toks
    by (simp add: ngrams_short)
qed

section \<open>Properties of the structure features\<close>

lemma floor_rat_numeral [simp]:
  "\<lfloor>(numeral a :: rat) / numeral b\<rfloor> = numeral a div numeral b"
  by (metis floor_divide_of_int_eq of_int_numeral)

lemma bit_length_le:
  assumes "n < 2 ^ k"
  shows "bit_length n \<le> k"
  using assms
proof (induction k arbitrary: n)
  case 0
  then show ?case by (simp add: bit_length.simps)
next
  case (Suc k)
  show ?case
  proof (cases "n = 0")
    case True
    then show ?thesis by (simp add: bit_length.simps)
  next
    case False
    have "n div 2 < 2 ^ k" using Suc.prems by simp
    then have "bit_length (n div 2) \<le> k" by (rule Suc.IH)
    then show ?thesis using False by (subst bit_length.simps) simp
  qed
qed

lemma round_half_even_bounds:
  "of_int \<lfloor>y\<rfloor> \<le> (of_int (round_half_even y) :: rat)"
  "(of_int (round_half_even y) :: rat) \<le> y + 1 / 2"
proof -
  define f where "f = \<lfloor>y\<rfloor>"
  define r where "r = y - of_int f"
  have r: "0 \<le> r" "r < 1" 
    unfolding r_def f_def by linarith+
  have y: "y = of_int f + r" by (simp add: r_def)
  have cases: "round_half_even y = f \<or> (round_half_even y = f + 1 \<and> 1 / 2 \<le> r)"
    unfolding round_half_even_def Let_def f_def [symmetric] r_def [symmetric]
    by auto
  show "of_int \<lfloor>y\<rfloor> \<le> (of_int (round_half_even y) :: rat)"
    using cases unfolding f_def [symmetric] by auto
  show "(of_int (round_half_even y) :: rat) \<le> y + 1 / 2"
    using cases r unfolding y by auto
qed

lemma binary_exponent_le:
  assumes "0 < a" and "\<lfloor>a\<rfloor> < 2 ^ 50"
  shows "binary_exponent a \<le> 49"
proof (cases "1 \<le> a")
  case True
  define f where "f = \<lfloor>a\<rfloor>"
  have "f < 2 ^ 50" using assms(2) by (simp only: f_def)
  then have "f < 1125899906842624" by simp
  then have "nat f < 1125899906842624" by linarith
  then have "nat f < 2 ^ 50" by simp
  then have "bit_length (nat \<lfloor>a\<rfloor>) \<le> 50"
    unfolding f_def by (rule bit_length_le)
  then show ?thesis using True by (simp add: binary_exponent_def)
next
  case False
  then show ?thesis by (simp add: binary_exponent_def)
qed

lemma to_double_floor:
  assumes "0 < a" and "of_int k \<le> a" and "a \<le> of_int k + 9 / 10" and "k < 2 ^ 50" and "0 \<le> k"
  shows "\<exists>d. to_double a = Inr d \<and> \<lfloor>d\<rfloor> = k \<and> 0 \<le> d"
proof -
  have fl: "\<lfloor>a\<rfloor> = k"
    using assms(2,3) by (intro floor_unique) auto
  define p where "p = max (binary_exponent a - 52) (- 1074)"
  have p: "p \<le> - 3"
    using binary_exponent_le [OF assms(1)] fl assms(4) by (simp add: p_def)
  define n where "n = nat (- p)"
  define N :: rat where "N = 2 ^ n"
  have "3 \<le> n" using p by (simp add: n_def)
  then have "(2::rat) ^ 3 \<le> 2 ^ n" by (intro power_increasing) simp_all
  then have N8: "8 \<le> N" by (simp add: N_def)
  have pw: "pow2 p = 1 / N" using p by (simp add: pow2_def N_def n_def)
  define m where "m = round_half_even (a * N)"
  have lower: "of_int k * N \<le> of_int m"
  proof -
    have "of_int k * N = of_int (k * 2 ^ n)" by (simp add: N_def)
    moreover have "k * 2 ^ n \<le> \<lfloor>a * N\<rfloor>"
    proof -
      have "of_int k * N \<le> a * N" using assms(2) N8 by (intro mult_right_mono) auto
      then have "of_int (k * 2 ^ n) \<le> a * N" by (simp add: N_def)
      then show ?thesis by (simp only: le_floor_iff)
    qed
    ultimately show ?thesis
      using round_half_even_bounds(1) [of "a * N"] unfolding m_def
      by (metis (no_types, opaque_lifting) of_int_le_iff order_trans)
  qed
  have upper: "of_int m < (of_int k + 1) * N"
  proof -
    have "of_int m \<le> a * N + 1 / 2"
      unfolding m_def by (rule round_half_even_bounds(2))
    also have "a * N \<le> (of_int k + 9 / 10) * N"
      using assms(3) N8 by (intro mult_right_mono) auto
    finally have "of_int m \<le> (of_int k + 9 / 10) * N + 1 / 2" by simp
    also have "\<dots> < (of_int k + 1) * N" using N8 by (simp add: algebra_simps)
    finally show ?thesis .
  qed
  define d where "d = of_int m * pow2 p"
  have d: "d = of_int m / N" by (simp add: d_def pw)
  have Npos: "0 < N" using N8 by simp
  have dl: "of_int k \<le> d" unfolding d using lower Npos by (simp add: pos_le_divide_eq)
  have du: "d < of_int k + 1" unfolding d using upper Npos by (simp add: pos_divide_less_eq)
  have dfl: "\<lfloor>d\<rfloor> = k" using dl du by (intro floor_unique) auto
  have "d < 2 ^ 50 + 1" using du assms(4)
    by (metis (no_types, opaque_lifting) add_strict_right_mono less_trans of_int_less_iff of_int_numeral of_int_power)
  then have small: "\<not> 2 ^ 1024 \<le> d" by simp
  have nz: "a \<noteq> 0" using assms(1) by simp
  have "to_double a = Inr d"
    using nz assms(1) small
    unfolding to_double_def Let_def abs_of_pos [OF assms(1)] p_def [symmetric]
    by (simp add: pw m_def [symmetric] d)
  moreover have "0 \<le> d" using dl assms(5) by (meson of_int_0_le_iff order_trans)
  ultimately show ?thesis using dfl by blast
qed

lemma rounded_size_exact:
  assumes "0 \<le> s" and "s < 2 ^ 53"
  shows "rounded_size (Some s) = Inr (s div 10 * 10)"
proof (cases "s = 0")
  case True
  then show ?thesis by (simp add: rounded_size_def)
next
  case False
  then have pos: "0 < s" using assms(1) by simp
  define k where "k = s div 10"
  define a :: rat where "a = of_int s / of_int 10"
  have k0: "0 \<le> k" using assms(1) by (simp add: k_def)
  have ks: "10 * k \<le> s" "s \<le> 10 * k + 9" unfolding k_def by presburger+
  have k50: "k < 2 ^ 50" using ks(1) assms(2) by simp
  have a0: "0 < a" using pos by (simp add: a_def)
  have al: "of_int k \<le> a"
  proof -
    have "(of_int (10 * k) :: rat) \<le> of_int s" using ks(1) by (simp only: of_int_le_iff)
    then show ?thesis by (simp add: a_def)
  qed
  have au: "a \<le> of_int k + 9 / 10"
  proof -
    have "(of_int s :: rat) \<le> of_int (10 * k + 9)" using ks(2) by (simp only: of_int_le_iff)
    then show ?thesis by (simp add: a_def)
  qed
  from to_double_floor [OF a0 al au k50 k0] obtain d where
    d: "to_double a = Inr d" "\<lfloor>d\<rfloor> = k" "0 \<le> d" by blast
  have "true_divide s 10 = Inr d" using d(1) by (simp add: true_divide_def a_def)
  then show ?thesis
    using False d by (simp add: rounded_size_def int_of_float_def k_def)
qed


lemma find_first_prefix:
  assumes "sep \<noteq> []"
  shows "find_first sep (sep @ rest) = Some ([], rest)"
proof -
  obtain c cs where "sep @ rest = c # cs" using assms by (cases "sep @ rest") auto
  moreover have "prefix sep (sep @ rest)" by simp
  ultimately show ?thesis by (metis append_eq_conv_conj find_first.simps(2))
qed

lemma subpath_of_descendant:
  assumes "path top_res \<noteq> []" and "path res = path top_res @ rest"
  shows "get_resource_subpath' res top_res = Inr (lstrip (CHR ''/'') rest)"
  using assms by (simp add: get_resource_subpath'_def partition_str_def find_first_prefix)

text \<open>
  Below \<open>2\<^sup>5\<^sup>3\<close> the quotient by ten is rounded to a double whose integer part is the
  exact quotient: for a child whose path starts with the non-empty path of the directory and
  whose size \<open>s\<close> is not negative and below \<open>2\<^sup>5\<^sup>3\<close>, the feature is the decimal rendering
  of \<open>s\<close> floor-divided by ten and multiplied by ten, followed by the rest of the path without
  its leading slashes.
\<close>

theorem path_feature_in_range:
  assumes "path directory \<noteq> []" and "path child = path directory @ rest"
    and "size child = Some s" and "0 \<le> s" and "s < 2 ^ 53"
  shows "path_feature directory child =
           Inr (Some (str_int (s div 10 * 10) @ lstrip (CHR ''/'') rest))"
  using assms
  by (simp add: path_feature_def subpath_of_descendant rounded_size_exact)

theorem path_feature_in_range_witness:
  "path_feature dir_d file_a = Inr (Some (''10'' @ ''a.c''))"
proof -
  have "dec_digits 10 = ''10''"
    by (simp add: dec_digits.simps [of 10] dec_digits.simps [of "Suc 0"] dec_char_def)
  then show ?thesis
    using path_feature_in_range [of dir_d file_a "''/a.c''" 15]
    by (simp add: dir_d_def file_a_def str_int_def lstrip_def)
qed

lemma bit_length_2_50: "bit_length 1125899906842624 = 51"
  by (simp add: bit_length.simps)

lemma binary_exponent_big: "binary_exponent (11258999068426249 / 10) = 50"
  by (simp add: binary_exponent_def bit_length_2_50)

lemma true_divide_big: "true_divide 11258999068426249 10 = Inr 1125899906842625"
  by (simp add: true_divide_def to_double_def Let_def binary_exponent_big pow2_def
      round_half_even_def)

lemma rounded_size_big: "rounded_size (Some 11258999068426249) = Inr 11258999068426250"
  by (simp add: rounded_size_def true_divide_big int_of_float_def)

lemma dec_digits_big:
  "dec_digits 11258999068426250 = ''11258999068426250''"
  "dec_digits 11258999068426240 = ''11258999068426240''"
  by (simp_all add: dec_digits.simps dec_char_def)

text \<open>
  Claim C8 at the size 11258999068426249: the quotient 1125899906842624.9 lies between the
  doubles 1125899906842624.75 and 1125899906842625.0 and is rounded to the second, so the
  feature starts with 11258999068426250, which is more than the size, where floor division
  gives 11258999068426240.
\<close>

theorem path_feature_large_size:
  "path_feature dir_d (file_a\<lparr>size := Some 11258999068426249\<rparr>) =
     Inr (Some ''11258999068426250a.c'') \<and>
   str_int (11258999068426249 div 10 * 10) @ ''a.c'' = ''11258999068426240a.c''"
  by (simp add: path_feature_def get_resource_subpath'_def partition_str_def lstrip_def
      rounded_size_big str_int_def dec_digits_big dir_d_def file_a_def)

end
